theory Spec2Isabelle
  imports Complex_Main
begin

chapter \<open>The dictated-email normaliser of \<^verbatim>\<open>src/api/parse-email.js\<close>\<close>

text \<open>
  The functions \<open>formatEmailText\<close> and \<open>validateEmail\<close> of the serverless handler (the first
  of the variants the file holds: the vocabulary without \<^verbatim>\<open>porfa\<close> and \<^verbatim>\<open>aroba\<close>, no
  inference of a missing \<^verbatim>\<open>@\<close>), embedded as functions on strings. The HTTP handler around
  them is not modelled.
\<close>

section \<open>JavaScript strings and values\<close>

text \<open>
  A JavaScript string is a sequence of UTF-16 code units; a code unit is modelled as a
  natural number. \<open>js\<close> turns an ASCII literal of this theory into such a string. The
  code units the definitions name: 46 is \<^verbatim>\<open>.\<close>, 64 is \<^verbatim>\<open>@\<close>, 95 is \<^verbatim>\<open>_\<close>, 43 is \<^verbatim>\<open>+\<close>,
  45 is \<^verbatim>\<open>-\<close>, 48 to 57 are the digits, 65 to 90 are \<^verbatim>\<open>A-Z\<close> and 97 to 122 are \<^verbatim>\<open>a-z\<close>.
\<close>

type_synonym jsstring = "nat list"

definition js :: "string \<Rightarrow> jsstring" where
  "js s = map of_char s"

text \<open>
  The values \<open>formatEmailText\<close> can be called with. Its guard
  \<^verbatim>\<open>!input || typeof input !== "string"\<close> only asks whether the value is a string and
  whether that string is empty.
\<close>

datatype jsvalue =
    JSUndefined
  | JSNull
  | JSBoolean bool
  | JSNumber real
  | JSString jsstring
  | JSObject

text \<open>
  What a property read \<^verbatim>\<open>MAP_SINGLE[t]\<close> can yield: a string stored in the object literal,
  or an object or function inherited from \<^verbatim>\<open>Object.prototype\<close>, kept with the string that
  \<^verbatim>\<open>out += sym\<close> appends for it.
\<close>

datatype propval = StrVal jsstring | ObjVal jsstring

fun toStr :: "propval \<Rightarrow> jsstring" where
  "toStr (StrVal s) = s"
| "toStr (ObjVal s) = s"

section \<open>Built-ins: case mapping, normalisation, white space\<close>

text \<open>
  \<^verbatim>\<open>\s\<close> and \<^verbatim>\<open>trim()\<close> use the same set: the WhiteSpace and LineTerminator code points of
  ECMAScript.
\<close>

definition isWhiteSpace :: "nat \<Rightarrow> bool" where
  "isWhiteSpace c =
     ((9 \<le> c \<and> c \<le> 13) \<or> c = 32 \<or> c = 160 \<or> c = 5760 \<or> (8192 \<le> c \<and> c \<le> 8202)
      \<or> c = 8232 \<or> c = 8233 \<or> c = 8239 \<or> c = 8287 \<or> c = 12288 \<or> c = 65279)"

definition trim :: "jsstring \<Rightarrow> jsstring" where
  "trim s = rev (dropWhile isWhiteSpace (rev (dropWhile isWhiteSpace s)))"

text \<open>
  \<^verbatim>\<open>toLowerCase()\<close> and \<^verbatim>\<open>normalize("NFD")\<close> follow the Unicode tables. On an ASCII code
  unit both are fixed and independent of the context: \<^verbatim>\<open>A-Z\<close> become \<^verbatim>\<open>a-z\<close>, and NFD leaves
  every ASCII code unit where it is. What they put in place of a code unit outside ASCII
  (which may depend on the whole string, as for a final sigma or a reordered combining
  mark) is a parameter of the model.
\<close>

record unicode =
  lowerNonAscii :: "jsstring \<Rightarrow> nat \<Rightarrow> jsstring"
  nfdNonAscii :: "jsstring \<Rightarrow> nat \<Rightarrow> jsstring"

definition asciiLower :: "nat \<Rightarrow> nat" where
  "asciiLower c = (if 65 \<le> c \<and> c \<le> 90 then c + 32 else c)"

definition toLowerCase :: "unicode \<Rightarrow> jsstring \<Rightarrow> jsstring" where
  "toLowerCase U s =
     concat (map (\<lambda>i. if s ! i < 128 then [asciiLower (s ! i)] else lowerNonAscii U s i)
                 [0..<length s])"

definition normalizeNFD :: "unicode \<Rightarrow> jsstring \<Rightarrow> jsstring" where
  "normalizeNFD U s =
     concat (map (\<lambda>i. if s ! i < 128 then [s ! i] else nfdNonAscii U s i) [0..<length s])"

text \<open>
  \<^verbatim>\<open>s.normalize("NFD")\<close> followed by the removal of every combining mark: the class of the
  regular expression, U+0300 to U+036F, is the code units 768 to 879.
\<close>

definition removeDiacritics :: "unicode \<Rightarrow> jsstring \<Rightarrow> jsstring" where
  "removeDiacritics U s = filter (\<lambda>c. \<not> (768 \<le> c \<and> c \<le> 879)) (normalizeNFD U s)"

text \<open>
  \<^verbatim>\<open>s.split(/\s+/)\<close>: the pieces between the maximal runs of white space, with an empty
  piece where the string starts or ends with white space, and \<^verbatim>\<open>[""]\<close> for the empty
  string.
\<close>

function splitWs :: "jsstring \<Rightarrow> jsstring \<Rightarrow> jsstring list" where
  "splitWs cur [] = [cur]"
| "splitWs cur (c # cs) =
     (if isWhiteSpace c then cur # splitWs [] (dropWhile isWhiteSpace cs)
      else splitWs (cur @ [c]) cs)"
  by pat_completeness auto
termination
  by (relation "measure (\<lambda>(cur, s). length s)")
     (auto simp: less_Suc_eq_le length_dropWhile_le)

definition split_ws :: "jsstring \<Rightarrow> jsstring list" where
  "split_ws s = splitWs [] s"

section \<open>The vocabulary\<close>

definition IGNORE :: "jsstring list" where
  "IGNORE = map js [''espacio'', ''espacios'', ''todo'', ''junto'', ''todojunto'', ''sin'',
     ''y'', ''con'', ''la'', ''el'', ''los'', ''las'', ''por'', ''favor'', ''porfavor'']"

definition IGNORE_has :: "jsstring \<Rightarrow> bool" where
  "IGNORE_has t = (t \<in> set IGNORE)"

definition MAP_SINGLE :: "(jsstring \<times> jsstring) list" where
  "MAP_SINGLE = map (\<lambda>(k, v). (js k, js v))
     [(''@'', ''@''), (''arroba'', ''@''), (''at'', ''@''),
      (''punto'', ''.''), (''dot'', ''.''), (''puntos'', ''.''),
      (''guion'', ''-''), (''guionmedio'', ''-''), (''guion-medio'', ''-''),
      (''dash'', ''-''), (''hyphen'', ''-''),
      (''guionbajo'', ''_''), (''underscore'', ''_''),
      (''mas'', ''+''), (''plus'', ''+'')]"

text \<open>
  \<^verbatim>\<open>MAP_SINGLE\<close> is an object literal, so a read \<^verbatim>\<open>MAP_SINGLE[t]\<close> that finds no own
  property goes on to \<^verbatim>\<open>Object.prototype\<close>. Its properties are functions, and the accessor
  \<^verbatim>\<open>__proto__\<close>, which yields \<^verbatim>\<open>Object.prototype\<close> itself. Each is listed with the string
  that string concatenation produces for it: \<^verbatim>\<open>"[object Object]"\<close> for the prototype
  object, and the text Node.js prints for a native function.
\<close>

definition nativeFunction :: "string \<Rightarrow> jsstring" where
  "nativeFunction name = js (''function '' @ name @ ''() { [native code] }'')"

definition Object_prototype :: "(jsstring \<times> jsstring) list" where
  "Object_prototype =
     [(js ''constructor'', nativeFunction ''Object''),
      (js ''__defineGetter__'', nativeFunction ''__defineGetter__''),
      (js ''__defineSetter__'', nativeFunction ''__defineSetter__''),
      (js ''hasOwnProperty'', nativeFunction ''hasOwnProperty''),
      (js ''__lookupGetter__'', nativeFunction ''__lookupGetter__''),
      (js ''__lookupSetter__'', nativeFunction ''__lookupSetter__''),
      (js ''isPrototypeOf'', nativeFunction ''isPrototypeOf''),
      (js ''propertyIsEnumerable'', nativeFunction ''propertyIsEnumerable''),
      (js ''toString'', nativeFunction ''toString''),
      (js ''valueOf'', nativeFunction ''valueOf''),
      (js ''__proto__'', js ''[object Object]''),
      (js ''toLocaleString'', nativeFunction ''toLocaleString'')]"

text \<open>\<^verbatim>\<open>MAP_SINGLE[t]\<close>; \<open>None\<close> is \<^verbatim>\<open>undefined\<close>.\<close>

definition MAP_SINGLE_get :: "jsstring \<Rightarrow> propval option" where
  "MAP_SINGLE_get t =
     (case map_of MAP_SINGLE t of
        Some v \<Rightarrow> Some (StrVal v)
      | None \<Rightarrow> (case map_of Object_prototype t of
                   Some v \<Rightarrow> Some (ObjVal v)
                 | None \<Rightarrow> None))"

text \<open>
  The condition \<^verbatim>\<open>if (MAP_SINGLE[t])\<close>: \<^verbatim>\<open>undefined\<close> and the empty string are falsy, every
  object is truthy.
\<close>

fun truthy :: "propval option \<Rightarrow> bool" where
  "truthy None = False"
| "truthy (Some (StrVal s)) = (s \<noteq> [])"
| "truthy (Some (ObjVal s)) = True"

section \<open>The token rewriter\<close>

text \<open>\<^verbatim>\<open>t.replace(/[^a-z0-9._+-]/g, "")\<close> keeps the characters of this class.\<close>

definition isEmailChar :: "nat \<Rightarrow> bool" where
  "isEmailChar c =
     ((97 \<le> c \<and> c \<le> 122) \<or> (48 \<le> c \<and> c \<le> 57) \<or> c = 46 \<or> c = 95 \<or> c = 43 \<or> c = 45)"

text \<open>
  The \<^verbatim>\<open>while (i < rawTokens.length)\<close> loop of \<open>formatEmailText\<close>, with its three
  variables \<open>i\<close>, \<open>seenAt\<close> and \<open>out\<close>; each \<^verbatim>\<open>continue\<close> is a recursive call. The
  branches are in the order of the code: the ignore set, the two bigrams of \<^verbatim>\<open>guion\<close>,
  the read \<^verbatim>\<open>MAP_SINGLE[t]\<close> when it is truthy, the four literal symbols, and last the
  token with the characters outside \<^verbatim>\<open>[a-z0-9._+-]\<close> removed.
\<close>

function rewriteLoop :: "jsstring list \<Rightarrow> nat \<Rightarrow> bool \<Rightarrow> jsstring \<Rightarrow> jsstring" where
  "rewriteLoop rawTokens i seenAt out =
     (if i < length rawTokens then
        (let t = rawTokens ! i in
         if IGNORE_has t then rewriteLoop rawTokens (i + 1) seenAt out
         else if t = js ''guion'' \<and> i + 1 < length rawTokens
                 \<and> rawTokens ! (i + 1) = js ''bajo''
           then rewriteLoop rawTokens (i + 2) seenAt (out @ js ''_'')
         else if t = js ''guion'' \<and> i + 1 < length rawTokens
                 \<and> (rawTokens ! (i + 1) = js ''medio'' \<or> rawTokens ! (i + 1) = js ''alto'')
           then rewriteLoop rawTokens (i + 2) seenAt (out @ js ''-'')
         else if truthy (MAP_SINGLE_get t) then
           (let sym = the (MAP_SINGLE_get t) in
            if sym = StrVal (js ''@'') then
              (if \<not> seenAt then rewriteLoop rawTokens (i + 1) True (out @ js ''@'')
               else rewriteLoop rawTokens (i + 1) seenAt out)
            else rewriteLoop rawTokens (i + 1) seenAt (out @ toStr sym))
         else if t = js ''.'' \<or> t = js ''_'' \<or> t = js ''-'' \<or> t = js ''+''
           then rewriteLoop rawTokens (i + 1) seenAt (out @ t)
         else rewriteLoop rawTokens (i + 1) seenAt (out @ filter isEmailChar t))
      else out)"
  by pat_completeness auto
termination
  by (relation "measure (\<lambda>(rawTokens, i, seenAt, out). length rawTokens - i)") auto

declare rewriteLoop.simps [simp del]

section \<open>The clean-up passes\<close>

text \<open>\<^verbatim>\<open>replace(/\.+/g, ".")\<close>: every maximal run of dots becomes one dot.\<close>

function collapseDots :: "jsstring \<Rightarrow> jsstring" where
  "collapseDots [] = []"
| "collapseDots (c # cs) =
     (if c = 46 then 46 # collapseDots (dropWhile (\<lambda>x. x = 46) cs)
      else c # collapseDots cs)"
  by pat_completeness auto
termination
  by (relation "measure length") (auto simp: less_Suc_eq_le length_dropWhile_le)

text \<open>\<^verbatim>\<open>replace(/\.@/g, "@")\<close>: scanning from the left, each \<^verbatim>\<open>.@\<close> becomes \<^verbatim>\<open>@\<close>.\<close>

fun replaceDotAt :: "jsstring \<Rightarrow> jsstring" where
  "replaceDotAt (c # d # cs) =
     (if c = 46 \<and> d = 64 then 64 # replaceDotAt cs else c # replaceDotAt (d # cs))"
| "replaceDotAt cs = cs"

text \<open>\<^verbatim>\<open>replace(/@\.?/g, "@")\<close>: each \<^verbatim>\<open>@\<close>, with the dot after it if there is one, becomes \<^verbatim>\<open>@\<close>.\<close>

fun replaceAtDot :: "jsstring \<Rightarrow> jsstring" where
  "replaceAtDot (c # d # cs) =
     (if c = 64 \<and> d = 46 then 64 # replaceAtDot cs else c # replaceAtDot (d # cs))"
| "replaceAtDot cs = cs"

text \<open>
  \<^verbatim>\<open>replace(/^\.+|\.+$/g, "")\<close>: the run of dots at the start and the run of dots at the
  end are removed.
\<close>

definition stripDots :: "jsstring \<Rightarrow> jsstring" where
  "stripDots s = rev (dropWhile (\<lambda>x. x = 46) (rev (dropWhile (\<lambda>x. x = 46) s)))"

text \<open>
  \<^verbatim>\<open>out.split("@", 2)\<close> on a string that contains \<^verbatim>\<open>@\<close>: the piece before the first
  \<^verbatim>\<open>@\<close>, and the piece between the first \<^verbatim>\<open>@\<close> and the second (or the end).
\<close>

definition split_at2 :: "jsstring \<Rightarrow> jsstring \<times> jsstring" where
  "split_at2 s =
     (takeWhile (\<lambda>x. x \<noteq> 64) s,
      takeWhile (\<lambda>x. x \<noteq> 64) (drop 1 (dropWhile (\<lambda>x. x \<noteq> 64) s)))"

definition cleanup :: "jsstring \<Rightarrow> jsstring" where
  "cleanup out0 =
     (let out = replaceAtDot (replaceDotAt (collapseDots out0)) in
      if 64 \<in> set out then
        (let (lcl, dmn) = split_at2 out;
             cleanLocal = stripDots lcl;
             cleanDomain = collapseDots (stripDots dmn)
         in cleanLocal @ js ''@'' @ cleanDomain)
      else stripDots out)"

section \<open>The validator\<close>

text \<open>
  \<^verbatim>\<open>email.indexOf("@")\<close>, and \<^verbatim>\<open>email.slice(from, to)\<close> for indices within the string
  (\<open>to\<close> is the length of the string where the code leaves it out).
\<close>

definition indexOf :: "jsstring \<Rightarrow> nat \<Rightarrow> int" where
  "indexOf s c = (if c \<in> set s then int (length (takeWhile (\<lambda>x. x \<noteq> c) s)) else - 1)"

definition slice :: "jsstring \<Rightarrow> int \<Rightarrow> int \<Rightarrow> jsstring" where
  "slice s from to = take (nat to - nat from) (drop (nat from) s)"

text \<open>\<^verbatim>\<open>/^[a-z0-9._+-]+$/.test(local)\<close>\<close>

definition localRegex :: "jsstring \<Rightarrow> bool" where
  "localRegex s = (s \<noteq> [] \<and> list_all isEmailChar s)"

text \<open>
  \<^verbatim>\<open>/^[a-z0-9.-]+\.[a-z]{2,}$/i.test(domain)\<close>: the string splits, at one of its dots, into a
  non-empty part of \<^verbatim>\<open>[a-z0-9.-]\<close> and a part of two or more letters; with the flag \<^verbatim>\<open>i\<close>
  the letters are those of either case.
\<close>

definition isLetter :: "nat \<Rightarrow> bool" where
  "isLetter c = ((97 \<le> c \<and> c \<le> 122) \<or> (65 \<le> c \<and> c \<le> 90))"

definition isDomainChar :: "nat \<Rightarrow> bool" where
  "isDomainChar c = (isLetter c \<or> (48 \<le> c \<and> c \<le> 57) \<or> c = 46 \<or> c = 45)"

definition domainRegex :: "jsstring \<Rightarrow> bool" where
  "domainRegex s =
     list_ex (\<lambda>k. take k s \<noteq> [] \<and> list_all isDomainChar (take k s) \<and> s ! k = 46
                  \<and> 2 \<le> length (drop (k + 1) s) \<and> list_all isLetter (drop (k + 1) s))
             [0..<length s]"

text \<open>\<^verbatim>\<open>domain.includes("..")\<close>\<close>

fun includesDotDot :: "jsstring \<Rightarrow> bool" where
  "includesDotDot (c # d # cs) = ((c = 46 \<and> d = 46) \<or> includesDotDot (d # cs))"
| "includesDotDot cs = False"

text \<open>The two flags of \<open>validateEmail\<close>, each a function of the part it tests.\<close>

definition localOk :: "jsstring \<Rightarrow> bool" where
  "localOk lcl = (localRegex lcl \<and> length lcl > 0)"

definition domainOk :: "jsstring \<Rightarrow> bool" where
  "domainOk dmn = (domainRegex dmn \<and> \<not> includesDotDot dmn)"

text \<open>The result is the tuple \<open>(isValid, confidence, local, domain)\<close>.\<close>

definition validateEmail :: "jsstring \<Rightarrow> bool \<times> real \<times> jsstring \<times> jsstring" where
  "validateEmail email =
     (let atIdx = indexOf email 64 in
      if atIdx = - 1 then (False, 0.4, [], [])
      else
        (let lcl = slice email 0 atIdx;
             dmn = slice email (atIdx + 1) (int (length email));
             confidence = (if localOk lcl \<and> domainOk dmn then 0.99
                           else if localOk lcl \<and> length dmn > 0 then 0.8
                           else 0.6)
         in (localOk lcl \<and> domainOk dmn, confidence, lcl, dmn)))"

section \<open>The normaliser\<close>

text \<open>
  The object \<open>formatEmailText\<close> returns. The guard's result has no \<^verbatim>\<open>input\<close>, \<^verbatim>\<open>local\<close> or
  \<^verbatim>\<open>domain\<close> property and the pipeline's result has no \<^verbatim>\<open>reason\<close>: an absent property is
  \<open>None\<close>.
\<close>

record result =
  input :: "jsstring option"
  email :: jsstring
  isValid :: bool
  confidence :: real
  local :: "jsstring option"
  domain :: "jsstring option"
  reason :: "jsstring option"

definition rawTokens_of :: "unicode \<Rightarrow> jsstring \<Rightarrow> jsstring list" where
  "rawTokens_of U inp =
     filter (\<lambda>t. t \<noteq> []) (split_ws (removeDiacritics U (toLowerCase U (trim inp))))"

fun formatEmailText :: "unicode \<Rightarrow> jsvalue \<Rightarrow> result" where
  "formatEmailText U (JSString inp) =
     (if inp = [] then
        \<lparr>input = None, email = [], isValid = False, confidence = 0.0,
         local = None, domain = None, reason = Some (js ''Empty input'')\<rparr>
      else
        (let rawTokens = rawTokens_of U inp;
             out = cleanup (rewriteLoop rawTokens 0 False []);
             (v, c, l, d) = validateEmail out
         in \<lparr>input = Some inp, email = out, isValid = v, confidence = c,
             local = Some l, domain = Some d, reason = None\<rparr>))"
| "formatEmailText U other =
     \<lparr>input = None, email = [], isValid = False, confidence = 0.0,
      local = None, domain = None, reason = Some (js ''Empty input'')\<rparr>"

section \<open>The domain test in the specification's words\<close>

text \<open>
  The specification describes the domain test as: one or more groups of characters of
  \<^verbatim>\<open>[a-z0-9-]\<close> separated by single dots, then a final dot and a top-level label of two or
  more letters, case-insensitively, and no \<^verbatim>\<open>..\<close> anywhere. \<open>spec_domainOk\<close> is this
  description, written independently of the regular expression of the code: the string is
  cut at its dots, every piece but the last is a non-empty group and there is at least one,
  and the last piece is the top-level label.
\<close>

definition isLabelChar :: "nat \<Rightarrow> bool" where
  "isLabelChar c = (isLetter c \<or> (48 \<le> c \<and> c \<le> 57) \<or> c = 45)"

fun splitDots :: "jsstring \<Rightarrow> jsstring list" where
  "splitDots [] = [[]]"
| "splitDots (c # cs) =
     (if c = 46 then [] # splitDots cs
      else (c # hd (splitDots cs)) # tl (splitDots cs))"

definition isGroup :: "jsstring \<Rightarrow> bool" where
  "isGroup g = (g \<noteq> [] \<and> list_all isLabelChar g)"

definition spec_domainOk :: "jsstring \<Rightarrow> bool" where
  "spec_domainOk d =
     (let pieces = splitDots d; groups = butlast pieces; tld = last pieces in
      groups \<noteq> [] \<and> list_all isGroup groups
      \<and> 2 \<le> length tld \<and> list_all isLetter tld
      \<and> \<not> includesDotDot d)"

section \<open>Built-ins on ASCII strings\<close>

lemma toLowerCase_ascii:
  assumes "list_all (\<lambda>c. c < 128) s"
  shows "toLowerCase U s = map asciiLower s"
proof -
  have "map (\<lambda>i. if s ! i < 128 then [asciiLower (s ! i)] else lowerNonAscii U s i) [0..<length s]
        = map (\<lambda>c. [asciiLower c]) s"
    using assms by (intro nth_equalityI) (auto simp: list_all_length)
  then show ?thesis
    by (simp add: toLowerCase_def)
qed

lemma normalizeNFD_ascii:
  assumes "list_all (\<lambda>c. c < 128) s"
  shows "normalizeNFD U s = s"
proof -
  have "map (\<lambda>i. if s ! i < 128 then [s ! i] else nfdNonAscii U s i) [0..<length s]
        = map (\<lambda>c. [c]) s"
    using assms by (intro nth_equalityI) (auto simp: list_all_length)
  then show ?thesis
    by (simp add: normalizeNFD_def)
qed

lemma removeDiacritics_ascii:
  assumes "list_all (\<lambda>c. c < 128) s"
  shows "removeDiacritics U s = s"
proof -
  have "filter (\<lambda>c. \<not> (768 \<le> c \<and> c \<le> 879)) s = s"
    using assms by (induction s) auto
  then show ?thesis
    by (simp add: removeDiacritics_def normalizeNFD_ascii [OF assms])
qed

lemma asciiLower_lt: "c < 128 \<Longrightarrow> asciiLower c < 128"
  by (simp add: asciiLower_def)

lemma set_trim: "set (trim s) \<subseteq> set s"
  unfolding trim_def by (auto dest!: set_dropWhileD)

lemma rawTokens_of_ascii:
  assumes "list_all (\<lambda>c. c < 128) s"
  shows "rawTokens_of U s = filter (\<lambda>t. t \<noteq> []) (split_ws (map asciiLower (trim s)))"
proof -
  have t: "list_all (\<lambda>c. c < 128) (trim s)"
    using assms set_trim [of s] by (auto simp: list_all_iff)
  then have "list_all (\<lambda>c. c < 128) (map asciiLower (trim s))"
    by (auto simp: list_all_iff asciiLower_lt)
  then show ?thesis
    by (simp add: rawTokens_of_def toLowerCase_ascii [OF t] removeDiacritics_ascii)
qed

lemma trim_whitespace:
  assumes "list_all isWhiteSpace s"
  shows "trim s = []"
proof -
  have h: "dropWhile isWhiteSpace s = []"
    using assms by (simp add: list_all_iff)
  show ?thesis
    unfolding trim_def h by simp
qed

lemma rawTokens_of_whitespace: "list_all isWhiteSpace s \<Longrightarrow> rawTokens_of U s = []"
  by (simp add: rawTokens_of_def trim_whitespace toLowerCase_def removeDiacritics_def
      normalizeNFD_def split_ws_def)

section \<open>Evaluation on concrete strings\<close>

text \<open>The definitions a run of the pipeline on a concrete string unfolds.\<close>

lemmas tokenize_defs = js_def trim_def isWhiteSpace_def asciiLower_def split_ws_def

lemmas rewrite_defs = js_def IGNORE_has_def IGNORE_def MAP_SINGLE_get_def MAP_SINGLE_def
  Object_prototype_def nativeFunction_def isEmailChar_def

lemmas cleanup_defs = js_def cleanup_def stripDots_def split_at2_def

lemmas validate_defs = js_def validateEmail_def indexOf_def slice_def localOk_def domainOk_def
  localRegex_def domainRegex_def isEmailChar_def isDomainChar_def isLetter_def upt_rec

section \<open>The validator and the assembled result\<close>

lemma validateEmail_no_at:
  "64 \<notin> set e \<Longrightarrow> validateEmail e = (False, 0.4, [], [])"
  by (simp add: validateEmail_def indexOf_def)

lemma validateEmail_at:
  assumes "64 \<in> set e"
  shows "validateEmail e =
     (localOk (takeWhile (\<lambda>x. x \<noteq> 64) e) \<and> domainOk (tl (dropWhile (\<lambda>x. x \<noteq> 64) e)),
      (if localOk (takeWhile (\<lambda>x. x \<noteq> 64) e) \<and> domainOk (tl (dropWhile (\<lambda>x. x \<noteq> 64) e)) then 0.99
       else if localOk (takeWhile (\<lambda>x. x \<noteq> 64) e) \<and> length (tl (dropWhile (\<lambda>x. x \<noteq> 64) e)) > 0 then 0.8
       else 0.6),
      takeWhile (\<lambda>x. x \<noteq> 64) e,
      tl (dropWhile (\<lambda>x. x \<noteq> 64) e))"
proof -
  let ?n = "length (takeWhile (\<lambda>x. x \<noteq> 64) e)"
  have idx: "indexOf e 64 = int ?n"
    using assms by (simp add: indexOf_def)
  have l: "slice e 0 (int ?n) = takeWhile (\<lambda>x. x \<noteq> 64) e"
    by (simp add: slice_def takeWhile_eq_take [symmetric])
  have "slice e (int ?n + 1) (int (length e)) = drop (Suc ?n) e"
    by (simp add: slice_def nat_add_distrib)
  also have "\<dots> = tl (dropWhile (\<lambda>x. x \<noteq> 64) e)"
    by (simp add: dropWhile_eq_drop drop_Suc tl_drop)
  finally have d: "slice e (int ?n + 1) (int (length e)) = tl (dropWhile (\<lambda>x. x \<noteq> 64) e)" .
  show ?thesis
    by (simp add: validateEmail_def idx l d Let_def)
qed

lemma validateEmail_confidence:
  "fst (snd (validateEmail e)) \<in> {0.4, 0.6, 0.8, 0.99}"
  by (cases "64 \<in> set e") (simp_all add: validateEmail_no_at validateEmail_at)

lemma split_email:
  assumes "64 \<in> set e"
  shows "e = takeWhile (\<lambda>x. x \<noteq> 64) e @ [64] @ tl (dropWhile (\<lambda>x. x \<noteq> 64) e)"
proof -
  have ne: "dropWhile (\<lambda>x. x \<noteq> 64) e \<noteq> []"
    using assms by (simp add: dropWhile_eq_Nil_conv)
  then have "hd (dropWhile (\<lambda>x. x \<noteq> 64) e) = 64"
    using hd_dropWhile [of "\<lambda>x. x \<noteq> 64" e] by simp
  then have "dropWhile (\<lambda>x. x \<noteq> 64) e = 64 # tl (dropWhile (\<lambda>x. x \<noteq> 64) e)"
    using ne by (metis list.collapse)
  then show ?thesis
    using takeWhile_dropWhile_id [of "\<lambda>x. x \<noteq> 64" e] by simp
qed

lemma formatEmailText_string:
  "inp \<noteq> [] \<Longrightarrow> formatEmailText U (JSString inp) =
     (let out = cleanup (rewriteLoop (rawTokens_of U inp) 0 False [])
      in \<lparr>input = Some inp, email = out, isValid = fst (validateEmail out),
          confidence = fst (snd (validateEmail out)),
          local = Some (fst (snd (snd (validateEmail out)))),
          domain = Some (snd (snd (snd (validateEmail out)))), reason = None\<rparr>)"
  by (simp add: Let_def split: prod.splits)

section \<open>The separator is emitted at most once\<close>

lemma set_collapseDots: "set (collapseDots s) \<subseteq> set s"
  by (induction s rule: collapseDots.induct) (auto dest: set_dropWhileD)

lemma set_stripDots: "set (stripDots s) \<subseteq> set s"
  unfolding stripDots_def by (auto dest!: set_dropWhileD)

lemma split_at2_no_at:
  "64 \<notin> set (fst (split_at2 s))" "64 \<notin> set (snd (split_at2 s))"
  by (auto simp: split_at2_def dest: set_takeWhileD)

lemma cleanup_at_count: "count_list (cleanup x) 64 \<le> 1"
proof -
  let ?out = "replaceAtDot (replaceDotAt (collapseDots x))"
  show ?thesis
  proof (cases "64 \<in> set ?out")
    case True
    have l: "64 \<notin> set (stripDots (fst (split_at2 ?out)))"
      using set_stripDots split_at2_no_at(1) by blast
    have d: "64 \<notin> set (collapseDots (stripDots (snd (split_at2 ?out))))"
      using set_collapseDots set_stripDots split_at2_no_at(2) by blast
    show ?thesis
      using True l d by (simp add: cleanup_def Let_def js_def case_prod_beta)
  next
    case False
    then have "64 \<notin> set (stripDots ?out)"
      using set_stripDots by blast
    then show ?thesis
      using False by (simp add: cleanup_def Let_def)
  qed
qed

lemma MAP_SINGLE_values:
  "map_of MAP_SINGLE t = Some v \<Longrightarrow> v = [64] \<or> 64 \<notin> set v"
  by (auto simp: MAP_SINGLE_def js_def split: if_splits)

lemma Object_prototype_values:
  "map_of Object_prototype t = Some v \<Longrightarrow> 64 \<notin> set v"
  by (auto simp: Object_prototype_def nativeFunction_def js_def split: if_splits)

lemma MAP_SINGLE_get_at:
  "MAP_SINGLE_get t = Some pv \<Longrightarrow> pv = StrVal (js ''@'') \<or> 64 \<notin> set (toStr pv)"
  using MAP_SINGLE_values [of t] Object_prototype_values [of t]
  by (auto simp: MAP_SINGLE_get_def js_def split: option.splits)

lemma truthy_Some: "truthy x \<Longrightarrow> \<exists>pv. x = Some pv"
  by (cases x) auto

lemma MAP_SINGLE_chars:
  "map_of MAP_SINGLE t = Some v \<Longrightarrow> list_all (\<lambda>c. isEmailChar c \<or> c = 64) v"
  by (auto simp: MAP_SINGLE_def js_def isEmailChar_def split: if_splits)

lemma MAP_SINGLE_get_chars:
  "MAP_SINGLE_get t = Some pv \<Longrightarrow>
   list_all (\<lambda>c. isEmailChar c \<or> c = 64) (toStr pv) \<or> map_of Object_prototype t = Some (toStr pv)"
  using MAP_SINGLE_chars [of t]
  by (auto simp: MAP_SINGLE_get_def split: option.splits)

text \<open>
  One turn of the loop: it consumes one or two tokens and appends one string to \<open>out\<close>.
  The string is \<^verbatim>\<open>@\<close> only if none was emitted before, and then the flag is set;
  otherwise the flag is unchanged and the string has no \<^verbatim>\<open>@\<close>. The string consists of
  characters of \<^verbatim>\<open>[a-z0-9._+-@]\<close> unless it is the text of an inherited property.
\<close>

lemma rewriteLoop_step:
  assumes "i < length toks"
  shows "\<exists>n e s'. 0 < n
     \<and> rewriteLoop toks i seenAt out = rewriteLoop toks (i + n) s' (out @ e)
     \<and> ((e = [64] \<and> \<not> seenAt \<and> s') \<or> (s' = seenAt \<and> 64 \<notin> set e))
     \<and> (list_all (\<lambda>c. isEmailChar c \<or> c = 64) e \<or> map_of Object_prototype (toks ! i) = Some e)"
proof -
  let ?t = "toks ! i"
  let ?bajo = "?t = js ''guion'' \<and> i + 1 < length toks \<and> toks ! (i + 1) = js ''bajo''"
  let ?medio = "?t = js ''guion'' \<and> i + 1 < length toks
       \<and> (toks ! (i + 1) = js ''medio'' \<or> toks ! (i + 1) = js ''alto'')"
  let ?symbol = "?t = js ''.'' \<or> ?t = js ''_'' \<or> ?t = js ''-'' \<or> ?t = js ''+''"
  let ?ok = "list_all (\<lambda>c. isEmailChar c \<or> c = 64)"
  let ?goal = "\<lambda>n e s'. 0 < n
     \<and> rewriteLoop toks i seenAt out = rewriteLoop toks (i + n) s' (out @ e)
     \<and> ((e = [64] \<and> \<not> seenAt \<and> s') \<or> (s' = seenAt \<and> 64 \<notin> set e))
     \<and> (?ok e \<or> map_of Object_prototype ?t = Some e)"
  consider (ign) "IGNORE_has ?t"
    | (bajo) "\<not> IGNORE_has ?t" "?bajo"
    | (medio) "\<not> IGNORE_has ?t" "\<not> ?bajo" "?medio"
    | (mapped) "\<not> IGNORE_has ?t" "\<not> ?bajo" "\<not> ?medio" "truthy (MAP_SINGLE_get ?t)"
    | (symbol) "\<not> IGNORE_has ?t" "\<not> ?bajo" "\<not> ?medio" "\<not> truthy (MAP_SINGLE_get ?t)" "?symbol"
    | (other) "\<not> IGNORE_has ?t" "\<not> ?bajo" "\<not> ?medio" "\<not> truthy (MAP_SINGLE_get ?t)" "\<not> ?symbol"
    by blast
  then show ?thesis
  proof cases
    case ign
    then have "rewriteLoop toks i seenAt out = rewriteLoop toks (i + 1) seenAt (out @ [])"
      using assms by (subst rewriteLoop.simps) (auto simp: Let_def)
    then have "?goal 1 [] seenAt" by simp
    then show ?thesis by blast
  next
    case bajo
    then have "rewriteLoop toks i seenAt out = rewriteLoop toks (i + 2) seenAt (out @ js ''_'')"
      using assms by (subst rewriteLoop.simps) (auto simp: Let_def)
    moreover have "64 \<notin> set (js ''_'')" "?ok (js ''_'')"
      by (simp_all add: js_def isEmailChar_def)
    ultimately have "?goal 2 (js ''_'') seenAt" by simp
    then show ?thesis by blast
  next
    case medio
    then have "rewriteLoop toks i seenAt out = rewriteLoop toks (i + 2) seenAt (out @ js ''-'')"
      using assms by (subst rewriteLoop.simps) (auto simp: Let_def)
    moreover have "64 \<notin> set (js ''-'')" "?ok (js ''-'')"
      by (simp_all add: js_def isEmailChar_def)
    ultimately have "?goal 2 (js ''-'') seenAt" by simp
    then show ?thesis by blast
  next
    case mapped
    then obtain pv where pv: "MAP_SINGLE_get ?t = Some pv"
      using truthy_Some by blast
    show ?thesis
    proof (cases "pv = StrVal (js ''@'')")
      case True
      show ?thesis
      proof (cases seenAt)
        case True
        have "rewriteLoop toks i seenAt out = rewriteLoop toks (i + 1) seenAt (out @ [])"
          using assms mapped pv \<open>pv = StrVal (js ''@'')\<close> True
          by (subst rewriteLoop.simps) (auto simp: Let_def)
        then have "?goal 1 [] seenAt" by simp
        then show ?thesis by blast
      next
        case False
        have "rewriteLoop toks i seenAt out = rewriteLoop toks (i + 1) True (out @ js ''@'')"
          using assms mapped pv \<open>pv = StrVal (js ''@'')\<close> False
          by (subst rewriteLoop.simps) (auto simp: Let_def)
        moreover have "js ''@'' = [64]" by (simp add: js_def)
        ultimately have "?goal 1 [64] True" using False by simp
        then show ?thesis by blast
      qed
    next
      case False
      have "rewriteLoop toks i seenAt out = rewriteLoop toks (i + 1) seenAt (out @ toStr pv)"
        using assms mapped pv False
        by (subst rewriteLoop.simps) (auto simp: Let_def)
      moreover have "64 \<notin> set (toStr pv)"
        using MAP_SINGLE_get_at [OF pv] False by blast
      moreover have "?ok (toStr pv) \<or> map_of Object_prototype ?t = Some (toStr pv)"
        using MAP_SINGLE_get_chars [OF pv] .
      ultimately have "?goal 1 (toStr pv) seenAt" by simp
      then show ?thesis by blast
    qed
  next
    case symbol
    then have "rewriteLoop toks i seenAt out = rewriteLoop toks (i + 1) seenAt (out @ ?t)"
      using assms by (subst rewriteLoop.simps) (auto simp: Let_def)
    moreover have "64 \<notin> set ?t" "?ok ?t"
      using symbol(5) by (auto simp: js_def isEmailChar_def)
    ultimately have "?goal 1 ?t seenAt" by simp
    then show ?thesis by blast
  next
    case other
    then have "rewriteLoop toks i seenAt out
        = rewriteLoop toks (i + 1) seenAt (out @ filter isEmailChar ?t)"
      using assms by (subst rewriteLoop.simps) (auto simp: Let_def)
    moreover have "64 \<notin> set (filter isEmailChar ?t)"
      by (auto simp: isEmailChar_def)
    moreover have "?ok (filter isEmailChar ?t)"
      by (simp add: list_all_iff)
    ultimately have "?goal 1 (filter isEmailChar ?t) seenAt" by simp
    then show ?thesis by blast
  qed
qed

lemma rewriteLoop_done: "\<not> i < length toks \<Longrightarrow> rewriteLoop toks i seenAt out = out"
  by (subst rewriteLoop.simps) simp

lemma rewriteLoop_at_count:
  "count_list out 64 \<le> 1 \<Longrightarrow> (64 \<in> set out \<longrightarrow> seenAt) \<Longrightarrow>
   count_list (rewriteLoop toks i seenAt out) 64 \<le> 1"
proof (induction "length toks - i" arbitrary: i seenAt out rule: less_induct)
  case less
  show ?case
  proof (cases "i < length toks")
    case False
    then show ?thesis
      using less.prems by (simp add: rewriteLoop_done)
  next
    case True
    obtain n e s' where n: "0 < n"
      and r: "rewriteLoop toks i seenAt out = rewriteLoop toks (i + n) s' (out @ e)"
      and e: "(e = [64] \<and> \<not> seenAt \<and> s') \<or> (s' = seenAt \<and> 64 \<notin> set e)"
      using rewriteLoop_step [OF True, of seenAt out] by blast
    have c: "count_list (out @ e) 64 \<le> 1"
      using e less.prems by (auto simp: count_list_0_iff)
    have s: "64 \<in> set (out @ e) \<longrightarrow> s'"
      using e less.prems by auto
    have "length toks - (i + n) < length toks - i"
      using True n by simp
    then show ?thesis
      unfolding r using less.hyps c s by blast
  qed
qed

lemma rewriteLoop_chars:
  "list_all (\<lambda>t. map_of Object_prototype t = None) toks \<Longrightarrow>
   list_all (\<lambda>c. isEmailChar c \<or> c = 64) out \<Longrightarrow>
   list_all (\<lambda>c. isEmailChar c \<or> c = 64) (rewriteLoop toks i seenAt out)"
proof (induction "length toks - i" arbitrary: i seenAt out rule: less_induct)
  case less
  show ?case
  proof (cases "i < length toks")
    case False
    then show ?thesis
      using less.prems by (simp add: rewriteLoop_done)
  next
    case True
    obtain n e s' where n: "0 < n"
      and r: "rewriteLoop toks i seenAt out = rewriteLoop toks (i + n) s' (out @ e)"
      and e: "list_all (\<lambda>c. isEmailChar c \<or> c = 64) e
              \<or> map_of Object_prototype (toks ! i) = Some e"
      using rewriteLoop_step [OF True, of seenAt out] by blast
    have "map_of Object_prototype (toks ! i) = None"
      using True less.prems(1) by (simp add: list_all_length)
    then have "list_all (\<lambda>c. isEmailChar c \<or> c = 64) (out @ e)"
      using e less.prems(2) by simp
    moreover have "length toks - (i + n) < length toks - i"
      using True n by simp
    ultimately show ?thesis
      unfolding r using less.hyps less.prems(1) by blast
  qed
qed

lemma rewriteLoop_drops_second_at:
  "i < length toks \<and> toks ! i \<in> {js ''@'', js ''arroba'', js ''at''} \<longrightarrow>
     rewriteLoop toks i True out = rewriteLoop toks (i + 1) True out"
  by (subst rewriteLoop.simps) (auto simp: rewrite_defs Let_def)

lemma rewriteLoop_guion_bajo:
  "i + 1 < length toks \<and> toks ! i = js ''guion'' \<and> toks ! (i + 1) = js ''bajo'' \<longrightarrow>
     rewriteLoop toks i seenAt out = rewriteLoop toks (i + 2) seenAt (out @ js ''_'')"
  by (subst rewriteLoop.simps) (auto simp: rewrite_defs Let_def)

section \<open>No doubled dot in the domain\<close>

lemma includesDotDot_Cons:
  "includesDotDot (x # ys) = ((ys \<noteq> [] \<and> x = 46 \<and> hd ys = 46) \<or> includesDotDot ys)"
  by (cases ys) auto

lemma collapseDots_Nil: "(collapseDots s = []) = (s = [])"
  by (cases s) auto

lemma hd_collapseDots: "s \<noteq> [] \<Longrightarrow> hd (collapseDots s) = hd s"
  by (cases s) auto

lemma collapseDots_no_dotdot: "\<not> includesDotDot (collapseDots s)"
proof (induction s rule: collapseDots.induct)
  case 1
  then show ?case by simp
next
  case (2 c cs)
  show ?case
  proof (cases "c = 46")
    case True
    let ?r = "dropWhile (\<lambda>x. x = 46) cs"
    have ih: "\<not> includesDotDot (collapseDots ?r)"
      using 2 True by simp
    have "\<not> (collapseDots ?r \<noteq> [] \<and> hd (collapseDots ?r) = 46)"
    proof (cases "?r = []")
      case True
      then show ?thesis by (simp only: collapseDots.simps) simp
    next
      case False
      then have "hd ?r \<noteq> 46"
        using hd_dropWhile [of "\<lambda>x. x = 46" cs] by blast
      then show ?thesis
        using hd_collapseDots [OF False] by simp
    qed
    then have "\<not> includesDotDot (46 # collapseDots ?r)"
      using ih by (simp only: includesDotDot_Cons) blast
    then show ?thesis
      using True by simp
  next
    case False
    then show ?thesis
      using 2 by (simp add: includesDotDot_Cons)
  qed
qed

lemma includesDotDot_iff:
  "includesDotDot s = (\<exists>a b. s = a @ [46, 46] @ b)"
proof
  show "includesDotDot s \<Longrightarrow> \<exists>a b. s = a @ [46, 46] @ b"
  proof (induction s rule: includesDotDot.induct)
    case (1 c d cs)
    show ?case
    proof (cases "c = 46 \<and> d = 46")
      case True
      then have "c # d # cs = [] @ [46, 46] @ cs" by simp
      then show ?thesis by blast
    next
      case False
      then obtain a b where "d # cs = a @ [46, 46] @ b"
        using 1 by auto
      then have "c # d # cs = (c # a) @ [46, 46] @ b" by simp
      then show ?thesis by blast
    qed
  qed simp_all
next
  assume "\<exists>a b. s = a @ [46, 46] @ b"
  then obtain a b where s: "s = a @ [46, 46] @ b" by blast
  show "includesDotDot s"
    unfolding s by (induction a) (auto simp: includesDotDot_Cons)
qed

lemma dropWhile_upto_at:
  "64 \<notin> set l \<Longrightarrow> dropWhile (\<lambda>x. x \<noteq> 64) (l @ 64 # d) = 64 # d"
  by (induction l) auto

lemma cleanup_domain_no_dotdot:
  "\<not> includesDotDot (snd (snd (snd (validateEmail (cleanup x)))))"
proof -
  let ?out = "replaceAtDot (replaceDotAt (collapseDots x))"
  show ?thesis
  proof (cases "64 \<in> set ?out")
    case True
    let ?l = "stripDots (fst (split_at2 ?out))"
    let ?d = "collapseDots (stripDots (snd (split_at2 ?out)))"
    have l: "64 \<notin> set ?l"
      using set_stripDots split_at2_no_at(1) by blast
    have c: "cleanup x = ?l @ 64 # ?d"
      using True by (simp add: cleanup_def Let_def js_def case_prod_beta)
    have "dropWhile (\<lambda>x. x \<noteq> 64) (?l @ 64 # ?d) = 64 # ?d"
      using l by (rule dropWhile_upto_at)
    then have "snd (snd (snd (validateEmail (cleanup x)))) = ?d"
      unfolding c by (subst validateEmail_at) simp_all
    then show ?thesis
      by (simp add: collapseDots_no_dotdot)
  next
    case False
    then have "64 \<notin> set (cleanup x)"
      using set_stripDots by (auto simp: cleanup_def Let_def)
    then show ?thesis
      by (simp add: validateEmail_no_at)
  qed
qed

section \<open>The regular expression of the domain against its description\<close>

lemma domainRegex_iff:
  "domainRegex s = (\<exists>p t. s = p @ 46 # t \<and> p \<noteq> [] \<and> list_all isDomainChar p
                        \<and> 2 \<le> length t \<and> list_all isLetter t)"
proof
  assume "domainRegex s"
  then obtain k where k: "k < length s" "take k s \<noteq> []" "list_all isDomainChar (take k s)"
      "s ! k = 46" "2 \<le> length (drop (k + 1) s)" "list_all isLetter (drop (k + 1) s)"
    by (auto simp: domainRegex_def list_ex_iff)
  have "s = take k s @ 46 # drop (k + 1) s"
    using id_take_nth_drop [OF k(1)] k(4) by simp
  then show "\<exists>p t. s = p @ 46 # t \<and> p \<noteq> [] \<and> list_all isDomainChar p
                \<and> 2 \<le> length t \<and> list_all isLetter t"
    using k by blast
next
  assume "\<exists>p t. s = p @ 46 # t \<and> p \<noteq> [] \<and> list_all isDomainChar p
                \<and> 2 \<le> length t \<and> list_all isLetter t"
  then obtain p t where s: "s = p @ 46 # t" and p: "p \<noteq> []" "list_all isDomainChar p"
      and t: "2 \<le> length t" "list_all isLetter t"
    by blast
  have "length p \<in> set [0..<length s]"
    by (simp add: s)
  moreover have "take (length p) s = p" "s ! length p = 46" "drop (length p + 1) s = t"
    by (simp_all add: s)
  ultimately show "domainRegex s"
    unfolding domainRegex_def list_ex_iff using p t by (intro bexI [of _ "length p"]) simp_all
qed

lemma letters_no_dot: "list_all isLetter t \<Longrightarrow> 46 \<notin> set t"
  by (auto simp: list_all_iff isLetter_def)

lemma splitDots_not_Nil: "splitDots s \<noteq> []"
  by (cases s) auto

lemma splitDots_no_dot: "46 \<notin> set t \<Longrightarrow> splitDots t = [t]"
  by (induction t) auto

lemma splitDots_last_dot:
  "46 \<notin> set t \<Longrightarrow> splitDots (p @ 46 # t) = splitDots p @ [t]"
  by (induction p) (auto simp: splitDots_no_dot splitDots_not_Nil)

lemma hd_splitDots_Nil: "(hd (splitDots s) = []) = (s = [] \<or> hd s = 46)"
  by (cases s) auto

lemma isDomainChar_iff: "isDomainChar c = (isLabelChar c \<or> c = 46)"
  by (auto simp: isDomainChar_def isLabelChar_def)

lemma isLabelChar_dot: "\<not> isLabelChar 46"
  by (simp add: isLabelChar_def isLetter_def)

text \<open>The pieces of a string whose first piece may be empty.\<close>

lemma pieces_tail:
  "(list_all isLabelChar (hd (splitDots s)) \<and> list_all isGroup (tl (splitDots s)))
   = (list_all isDomainChar s \<and> (s \<noteq> [] \<longrightarrow> last s \<noteq> 46) \<and> \<not> includesDotDot s)"
proof (induction s)
  case Nil
  then show ?case by simp
next
  case (Cons c cs)
  show ?case
  proof (cases "c = 46")
    case True
    have "list_all isGroup (splitDots cs)
          = (hd (splitDots cs) \<noteq> [] \<and> list_all isLabelChar (hd (splitDots cs))
             \<and> list_all isGroup (tl (splitDots cs)))"
      using splitDots_not_Nil [of cs] by (cases "splitDots cs") (auto simp: isGroup_def)
    then show ?thesis
      using True Cons
      by (auto simp: includesDotDot_Cons hd_splitDots_Nil isDomainChar_iff)
  next
    case False
    then show ?thesis
      using Cons
      by (auto simp: includesDotDot_Cons isDomainChar_iff)
  qed
qed

lemma pieces_groups:
  "list_all isGroup (splitDots s)
   = (s \<noteq> [] \<and> hd s \<noteq> 46 \<and> last s \<noteq> 46 \<and> list_all isDomainChar s \<and> \<not> includesDotDot s)"
proof -
  have "list_all isGroup (splitDots s)
        = (hd (splitDots s) \<noteq> [] \<and> list_all isLabelChar (hd (splitDots s))
           \<and> list_all isGroup (tl (splitDots s)))"
    using splitDots_not_Nil [of s] by (cases "splitDots s") (auto simp: isGroup_def)
  then show ?thesis
    using pieces_tail [of s] by (auto simp: hd_splitDots_Nil)
qed


lemma last_dot_unique:
  assumes "p @ 46 # t = p' @ 46 # t'" "(46::nat) \<notin> set t" "46 \<notin> set t'"
  shows "p = p' \<and> t = t'"
proof -
  have e: "rev t @ 46 # rev p = rev t' @ 46 # rev p'"
    using arg_cong [OF assms(1), of rev] by simp
  have "takeWhile (\<lambda>x. x \<noteq> 46) (rev t @ 46 # rev p) = rev t"
    using assms(2) by (auto simp: takeWhile_tail)
  moreover have "takeWhile (\<lambda>x. x \<noteq> 46) (rev t' @ 46 # rev p') = rev t'"
    using assms(3) by (auto simp: takeWhile_tail)
  ultimately have "rev t = rev t'"
    using e by simp
  then show ?thesis
    using assms(1) by simp
qed

lemma domainRegex_last_dot:
  assumes "46 \<notin> set t"
  shows "domainRegex (p @ 46 # t)
         = (p \<noteq> [] \<and> list_all isDomainChar p \<and> 2 \<le> length t \<and> list_all isLetter t)"
proof
  assume "domainRegex (p @ 46 # t)"
  then obtain p' t' where e: "p @ 46 # t = p' @ 46 # t'" and p': "p' \<noteq> []" "list_all isDomainChar p'"
      and t': "2 \<le> length t'" "list_all isLetter t'"
    unfolding domainRegex_iff by blast
  have "p = p' \<and> t = t'"
    using last_dot_unique [OF e assms letters_no_dot [OF t'(2)]] .
  then show "p \<noteq> [] \<and> list_all isDomainChar p \<and> 2 \<le> length t \<and> list_all isLetter t"
    using p' t' by simp
next
  assume "p \<noteq> [] \<and> list_all isDomainChar p \<and> 2 \<le> length t \<and> list_all isLetter t"
  then show "domainRegex (p @ 46 # t)"
    unfolding domainRegex_iff by blast
qed

lemma includesDotDot_around_dot:
  "includesDotDot (p @ 46 # t)
   = (includesDotDot p \<or> (p \<noteq> [] \<and> last p = 46) \<or> (t \<noteq> [] \<and> hd t = 46) \<or> includesDotDot t)"
  by (induction p) (auto simp: includesDotDot_Cons)

lemma spec_domainOk_iff:
  "spec_domainOk s = (domainOk s \<and> s \<noteq> [] \<and> hd s \<noteq> 46)"
proof (cases "46 \<in> set s")
  case False
  then have "\<not> spec_domainOk s"
    by (simp add: spec_domainOk_def splitDots_no_dot)
  moreover have "\<not> domainRegex s"
    using False unfolding domainRegex_iff by auto
  ultimately show ?thesis
    by (simp add: domainOk_def)
next
  case True
  then obtain p t where s: "s = p @ 46 # t" and t: "46 \<notin> set t"
    using split_list_last [of 46 s] by blast
  have sp: "spec_domainOk s
            = (list_all isGroup (splitDots p) \<and> 2 \<le> length t \<and> list_all isLetter t
               \<and> \<not> includesDotDot s)"
    by (simp add: spec_domainOk_def s splitDots_last_dot [OF t] splitDots_not_Nil)
  have "hd s = hd p" if "p \<noteq> []"
    using that by (simp add: s)
  then show ?thesis
    unfolding sp domainOk_def pieces_groups
    unfolding s domainRegex_last_dot [OF t] includesDotDot_around_dot
    by auto
qed

lemma domainRegex_Nil: "\<not> domainRegex []"
  by (simp add: domainRegex_def)

section \<open>Worked inputs\<close>

text \<open>
  C1. For the input \<^verbatim>\<open>"raul dot smith at gmail dot com"\<close> the result has the email
  \<^verbatim>\<open>"raul.smith@gmail.com"\<close>, is valid and has confidence 0.99, whatever the Unicode tables
  do outside ASCII.
\<close>

theorem C1_raul_dot_smith:
  "email (formatEmailText U (JSString (js ''raul dot smith at gmail dot com'')))
     = js ''raul.smith@gmail.com''
   \<and> isValid (formatEmailText U (JSString (js ''raul dot smith at gmail dot com''))) = True
   \<and> confidence (formatEmailText U (JSString (js ''raul dot smith at gmail dot com''))) = 0.99"
proof -
  have ne: "js ''raul dot smith at gmail dot com'' \<noteq> []"
    by (simp add: js_def)
  have tok: "rawTokens_of U (js ''raul dot smith at gmail dot com'')
      = map js [''raul'', ''dot'', ''smith'', ''at'', ''gmail'', ''dot'', ''com'']"
    by (subst rawTokens_of_ascii) (simp_all add: tokenize_defs)
  have loop: "rewriteLoop (map js [''raul'', ''dot'', ''smith'', ''at'', ''gmail'', ''dot'', ''com''])
      0 False [] = js ''raul.smith@gmail.com''"
    by (simp add: rewriteLoop.simps rewrite_defs)
  have clean: "cleanup (js ''raul.smith@gmail.com'') = js ''raul.smith@gmail.com''"
    by (simp add: cleanup_defs)
  have val: "validateEmail (js ''raul.smith@gmail.com'')
      = (True, 0.99, js ''raul.smith'', js ''gmail.com'')"
    by (simp add: validate_defs)
  show ?thesis
    by (simp add: ne tok loop clean val del: list.map)
qed

section \<open>The guard and the shape of the result\<close>

text \<open>
  C3. For every non-empty string input \<open>formatEmailText\<close> returns a result (every function
  of the model is total: each loop has its termination proof), and the confidence of that
  result is one of 0.0, 0.4, 0.6, 0.8 and 0.99.
\<close>

theorem C3_confidence_values:
  "inp \<noteq> [] \<Longrightarrow>
   \<exists>r. formatEmailText U (JSString inp) = r \<and> confidence r \<in> {0.0, 0.4, 0.6, 0.8, 0.99}"
  using validateEmail_confidence [of "cleanup (rewriteLoop (rawTokens_of U inp) 0 False [])"]
  by (simp add: formatEmailText_string Let_def del: formatEmailText.simps)

theorem C3_confidence_values_witness:
  "\<forall>U. js ''ventas empresa'' \<noteq> []
     \<and> (\<exists>r. formatEmailText U (JSString (js ''ventas empresa'')) = r
            \<and> confidence r \<in> {0.0, 0.4, 0.6, 0.8, 0.99})"
proof (intro allI conjI)
  show ne: "js ''ventas empresa'' \<noteq> []"
    by (simp add: js_def)
  fix U
  show "\<exists>r. formatEmailText U (JSString (js ''ventas empresa'')) = r
          \<and> confidence r \<in> {0.0, 0.4, 0.6, 0.8, 0.99}"
    by (rule C3_confidence_values [OF ne])
qed

text \<open>
  C4. An input that is not a string (\<^verbatim>\<open>undefined\<close>, \<^verbatim>\<open>null\<close>, a boolean, a number, an
  object) or that is the empty string gets the guard's result: empty email, not valid,
  confidence 0.0, reason \<^verbatim>\<open>"Empty input"\<close>, and no \<^verbatim>\<open>input\<close>, \<^verbatim>\<open>local\<close> or \<^verbatim>\<open>domain\<close>
  property. The result does not depend on the Unicode tables: no stage of the pipeline
  contributes to it.
\<close>

theorem C4_guard:
  "(case v of JSString s \<Rightarrow> s = [] | _ \<Rightarrow> True) \<Longrightarrow>
   formatEmailText U v =
     \<lparr>input = None, email = [], isValid = False, confidence = 0.0,
      local = None, domain = None, reason = Some (js ''Empty input'')\<rparr>"
  by (cases v) simp_all

theorem C4_guard_witness:
  "\<forall>U. (case JSString [] of JSString s \<Rightarrow> s = [] | _ \<Rightarrow> True)
     \<and> formatEmailText U (JSString []) =
         \<lparr>input = None, email = [], isValid = False, confidence = 0.0,
          local = None, domain = None, reason = Some (js ''Empty input'')\<rparr>
     \<and> (case JSUndefined of JSString s \<Rightarrow> s = [] | _ \<Rightarrow> True)
     \<and> formatEmailText U JSUndefined =
         \<lparr>input = None, email = [], isValid = False, confidence = 0.0,
          local = None, domain = None, reason = Some (js ''Empty input'')\<rparr>"
proof (intro allI conjI)
  show e: "case JSString [] of JSString s \<Rightarrow> s = [] | _ \<Rightarrow> True"
    by simp
  show u: "case JSUndefined of JSString s \<Rightarrow> s = [] | _ \<Rightarrow> True"
    by simp
  fix U
  show "formatEmailText U (JSString []) =
         \<lparr>input = None, email = [], isValid = False, confidence = 0.0,
          local = None, domain = None, reason = Some (js ''Empty input'')\<rparr>"
    by (rule C4_guard [OF e])
  show "formatEmailText U JSUndefined =
         \<lparr>input = None, email = [], isValid = False, confidence = 0.0,
          local = None, domain = None, reason = Some (js ''Empty input'')\<rparr>"
    by (rule C4_guard [OF u])
qed

text \<open>
  C8. A non-empty input made of white space only passes the guard, which tests the
  untrimmed string. The pipeline then runs on an empty token list and the result is: the
  raw input, the empty email, not valid, confidence 0.4, empty \<^verbatim>\<open>local\<close> and \<^verbatim>\<open>domain\<close>;
  it is not the confidence-0.0 \<^verbatim>\<open>"Empty input"\<close> result.
\<close>

theorem C8_whitespace_only:
  "inp \<noteq> [] \<and> list_all isWhiteSpace inp \<Longrightarrow>
   formatEmailText U (JSString inp) =
     \<lparr>input = Some inp, email = [], isValid = False, confidence = 0.4,
      local = Some [], domain = Some [], reason = None\<rparr>
   \<and> confidence (formatEmailText U (JSString inp)) \<noteq> 0.0
   \<and> reason (formatEmailText U (JSString inp)) \<noteq> Some (js ''Empty input'')"
  by (simp add: formatEmailText_string rawTokens_of_whitespace rewriteLoop.simps cleanup_def
      stripDots_def validateEmail_no_at del: formatEmailText.simps)

theorem C8_whitespace_only_witness:
  "\<forall>U. (js '' '' \<noteq> [] \<and> list_all isWhiteSpace (js '' ''))
     \<and> formatEmailText U (JSString (js '' '')) =
         \<lparr>input = Some (js '' ''), email = [], isValid = False, confidence = 0.4,
          local = Some [], domain = Some [], reason = None\<rparr>"
proof (intro allI conjI)
  show ne: "js '' '' \<noteq> []"
    by (simp add: js_def)
  show ws: "list_all isWhiteSpace (js '' '')"
    by (simp add: js_def isWhiteSpace_def)
  fix U
  show "formatEmailText U (JSString (js '' '')) =
         \<lparr>input = Some (js '' ''), email = [], isValid = False, confidence = 0.4,
          local = Some [], domain = Some [], reason = None\<rparr>"
    using C8_whitespace_only [OF conjI [OF ne ws], of U] by (rule conjunct1)
qed

text \<open>
  C10. For every non-empty string input the \<^verbatim>\<open>local\<close> and \<^verbatim>\<open>domain\<close> of the result agree
  with its \<^verbatim>\<open>email\<close>: when the email contains \<^verbatim>\<open>@\<close>, \<^verbatim>\<open>local\<close> is the part before the
  first \<^verbatim>\<open>@\<close>, \<^verbatim>\<open>domain\<close> the part after it, and the email is \<^verbatim>\<open>local + "@" + domain\<close>;
  when it contains none, both are the empty string.
\<close>

theorem C10_local_domain_consistent:
  "inp \<noteq> [] \<Longrightarrow>
   (let r = formatEmailText U (JSString inp) in
    if 64 \<in> set (email r) then
      local r = Some (takeWhile (\<lambda>c. c \<noteq> 64) (email r))
      \<and> domain r = Some (tl (dropWhile (\<lambda>c. c \<noteq> 64) (email r)))
      \<and> email r = the (local r) @ js ''@'' @ the (domain r)
    else local r = Some [] \<and> domain r = Some [])"
  using split_email [of "cleanup (rewriteLoop (rawTokens_of U inp) 0 False [])"]
  by (simp add: formatEmailText_string Let_def validateEmail_no_at validateEmail_at js_def
      del: formatEmailText.simps)

theorem C10_local_domain_consistent_witness:
  "\<forall>U. js ''raul dot smith at gmail dot com'' \<noteq> []
     \<and> (let r = formatEmailText U (JSString (js ''raul dot smith at gmail dot com'')) in
        if 64 \<in> set (email r) then
          local r = Some (takeWhile (\<lambda>c. c \<noteq> 64) (email r))
          \<and> domain r = Some (tl (dropWhile (\<lambda>c. c \<noteq> 64) (email r)))
          \<and> email r = the (local r) @ js ''@'' @ the (domain r)
        else local r = Some [] \<and> domain r = Some [])"
proof (intro allI conjI)
  show ne: "js ''raul dot smith at gmail dot com'' \<noteq> []"
    by (simp add: js_def)
  fix U
  show "let r = formatEmailText U (JSString (js ''raul dot smith at gmail dot com'')) in
        if 64 \<in> set (email r) then
          local r = Some (takeWhile (\<lambda>c. c \<noteq> 64) (email r))
          \<and> domain r = Some (tl (dropWhile (\<lambda>c. c \<noteq> 64) (email r)))
          \<and> email r = the (local r) @ js ''@'' @ the (domain r)
        else local r = Some [] \<and> domain r = Some []"
    by (rule C10_local_domain_consistent [OF ne])
qed

section \<open>Invariants of the result\<close>

text \<open>
  C7. Whatever the input, the \<^verbatim>\<open>domain\<close> of the result never contains two consecutive
  dots: the clean-up pass collapses every run of dots of the domain part before the
  validator slices the domain out of the email. (The guard's result has no \<^verbatim>\<open>domain\<close>
  property at all.)
\<close>

theorem C7_domain_no_consecutive_dots:
  "\<forall>d. domain (formatEmailText U v) = Some d \<longrightarrow>
        \<not> includesDotDot d \<and> \<not> (\<exists>a b. d = a @ js ''..'' @ b)"
proof (cases "\<exists>s. v = JSString s \<and> s \<noteq> []")
  case True
  then obtain s where v: "v = JSString s" and ne: "s \<noteq> []" by blast
  have j: "js ''..'' = [46, 46]" by (simp add: js_def)
  show ?thesis
    unfolding v j includesDotDot_iff [symmetric]
    using cleanup_domain_no_dotdot [of "rewriteLoop (rawTokens_of U s) 0 False []"]
    by (simp add: formatEmailText_string [OF ne] Let_def del: formatEmailText.simps)
next
  case False
  then have "domain (formatEmailText U v) = None"
    by (cases v) auto
  then show ?thesis by simp
qed

theorem C7_domain_no_consecutive_dots_witness:
  "\<forall>U. domain (formatEmailText U (JSString (js ''a at b punto . punto com''))) = Some (js ''b.com'')
       \<and> \<not> includesDotDot (js ''b.com'')
       \<and> \<not> (\<exists>a b. js ''b.com'' = a @ js ''..'' @ b)"
proof -
  have d: "domain (formatEmailText U (JSString (js ''a at b punto . punto com''))) = Some (js ''b.com'')"
    for U
  proof -
    have ne: "js ''a at b punto . punto com'' \<noteq> []"
      by (simp add: js_def)
    have tok: "rawTokens_of U (js ''a at b punto . punto com'')
        = map js [''a'', ''at'', ''b'', ''punto'', ''.'', ''punto'', ''com'']"
      by (subst rawTokens_of_ascii) (simp_all add: tokenize_defs)
    have loop: "rewriteLoop (map js [''a'', ''at'', ''b'', ''punto'', ''.'', ''punto'', ''com''])
        0 False [] = js ''a@b...com''"
      by (simp add: rewriteLoop.simps rewrite_defs)
    have clean: "cleanup (js ''a@b...com'') = js ''a@b.com''"
      by (simp add: cleanup_defs)
    have val: "validateEmail (js ''a@b.com'') = (True, 0.99, js ''a'', js ''b.com'')"
      by (simp add: validate_defs)
    show ?thesis
      by (simp add: ne tok loop clean val del: list.map)
  qed
  show ?thesis
    using C7_domain_no_consecutive_dots [of _ "JSString (js ''a at b punto . punto com'')"] d
    by blast
qed

text \<open>
  C2. Whatever the input, the email of the result contains at most one \<^verbatim>\<open>@\<close>. The
  rewriter emits \<^verbatim>\<open>@\<close> at most once: once \<open>seenAt\<close> is set, a further token that
  maps to \<^verbatim>\<open>@\<close> is consumed and nothing is emitted for it. The input
  \<^verbatim>\<open>"juan arroba arroba gmail punto com"\<close> gives \<^verbatim>\<open>"juan@gmail.com"\<close>.
\<close>

theorem C2_at_most_one_at:
  "count_list (email (formatEmailText U v)) 64 \<le> 1
   \<and> count_list (rewriteLoop toks 0 False []) 64 \<le> 1
   \<and> (i < length toks \<and> toks ! i \<in> {js ''@'', js ''arroba'', js ''at''} \<longrightarrow>
        rewriteLoop toks i True out = rewriteLoop toks (i + 1) True out)
   \<and> email (formatEmailText U (JSString (js ''juan arroba arroba gmail punto com'')))
        = js ''juan@gmail.com''
   \<and> count_list (js ''juan@gmail.com'') 64 = 1"
proof (intro conjI)
  show "count_list (email (formatEmailText U v)) 64 \<le> 1"
  proof (cases "\<exists>s. v = JSString s \<and> s \<noteq> []")
    case True
    then obtain s where v: "v = JSString s" and ne: "s \<noteq> []" by blast
    show ?thesis
      unfolding v using cleanup_at_count [of "rewriteLoop (rawTokens_of U s) 0 False []"]
      by (simp add: formatEmailText_string [OF ne] Let_def del: formatEmailText.simps)
  next
    case False
    then have "email (formatEmailText U v) = []"
      by (cases v) auto
    then show ?thesis by simp
  qed
  show "count_list (rewriteLoop toks 0 False []) 64 \<le> 1"
    by (rule rewriteLoop_at_count) simp_all
  show "i < length toks \<and> toks ! i \<in> {js ''@'', js ''arroba'', js ''at''} \<longrightarrow>
        rewriteLoop toks i True out = rewriteLoop toks (i + 1) True out"
    by (rule rewriteLoop_drops_second_at)
  have ne: "js ''juan arroba arroba gmail punto com'' \<noteq> []"
    by (simp add: js_def)
  have tok: "rawTokens_of U (js ''juan arroba arroba gmail punto com'')
      = map js [''juan'', ''arroba'', ''arroba'', ''gmail'', ''punto'', ''com'']"
    by (subst rawTokens_of_ascii) (simp_all add: tokenize_defs)
  have loop: "rewriteLoop (map js [''juan'', ''arroba'', ''arroba'', ''gmail'', ''punto'', ''com''])
      0 False [] = js ''juan@gmail.com''"
    by (simp add: rewriteLoop.simps rewrite_defs)
  have clean: "cleanup (js ''juan@gmail.com'') = js ''juan@gmail.com''"
    by (simp add: cleanup_defs)
  have val: "validateEmail (js ''juan@gmail.com'') = (True, 0.99, js ''juan'', js ''gmail.com'')"
    by (simp add: validate_defs)
  show "email (formatEmailText U (JSString (js ''juan arroba arroba gmail punto com'')))
        = js ''juan@gmail.com''"
    by (simp add: ne tok loop clean val del: list.map)
  show "count_list (js ''juan@gmail.com'') 64 = 1"
    by (simp add: js_def)
qed

theorem C2_at_most_one_at_witness:
  "(1 < length (map js [''juan'', ''arroba'', ''arroba''])
     \<and> map js [''juan'', ''arroba'', ''arroba''] ! 1 \<in> {js ''@'', js ''arroba'', js ''at''})
   \<and> rewriteLoop (map js [''juan'', ''arroba'', ''arroba'']) 1 True (js ''juan@'')
       = rewriteLoop (map js [''juan'', ''arroba'', ''arroba'']) (1 + 1) True (js ''juan@'')"
proof -
  have h: "1 < length (map js [''juan'', ''arroba'', ''arroba''])
     \<and> map js [''juan'', ''arroba'', ''arroba''] ! 1 \<in> {js ''@'', js ''arroba'', js ''at''}"
    by simp
  have "1 < length (map js [''juan'', ''arroba'', ''arroba''])
     \<and> map js [''juan'', ''arroba'', ''arroba''] ! 1 \<in> {js ''@'', js ''arroba'', js ''at''} \<longrightarrow>
        rewriteLoop (map js [''juan'', ''arroba'', ''arroba'']) 1 True (js ''juan@'')
          = rewriteLoop (map js [''juan'', ''arroba'', ''arroba'']) (1 + 1) True (js ''juan@'')"
    using C2_at_most_one_at
      [where i = 1 and toks = "map js [''juan'', ''arroba'', ''arroba'']" and out = "js ''juan@''"]
    by blast
  then show ?thesis
    using h by blast
qed

text \<open>
  C5. Where the token \<^verbatim>\<open>guion\<close> is followed by the token \<^verbatim>\<open>bajo\<close>, the rewriter consumes
  both and emits \<^verbatim>\<open>_\<close>, although \<^verbatim>\<open>guion\<close> alone maps to \<^verbatim>\<open>-\<close>. The input
  \<^verbatim>\<open>"guion bajo test arroba dominio punto com"\<close> gives \<^verbatim>\<open>"_test@dominio.com"\<close>.
\<close>

theorem C5_guion_bajo_bigram:
  "(i + 1 < length toks \<and> toks ! i = js ''guion'' \<and> toks ! (i + 1) = js ''bajo'' \<longrightarrow>
      rewriteLoop toks i seenAt out = rewriteLoop toks (i + 2) seenAt (out @ js ''_''))
   \<and> MAP_SINGLE_get (js ''guion'') = Some (StrVal (js ''-''))
   \<and> email (formatEmailText U (JSString (js ''guion bajo test arroba dominio punto com'')))
        = js ''_test@dominio.com''"
proof (intro conjI)
  show "i + 1 < length toks \<and> toks ! i = js ''guion'' \<and> toks ! (i + 1) = js ''bajo'' \<longrightarrow>
      rewriteLoop toks i seenAt out = rewriteLoop toks (i + 2) seenAt (out @ js ''_'')"
    by (rule rewriteLoop_guion_bajo)
  show "MAP_SINGLE_get (js ''guion'') = Some (StrVal (js ''-''))"
    by (simp add: rewrite_defs)
  have ne: "js ''guion bajo test arroba dominio punto com'' \<noteq> []"
    by (simp add: js_def)
  have tok: "rawTokens_of U (js ''guion bajo test arroba dominio punto com'')
      = map js [''guion'', ''bajo'', ''test'', ''arroba'', ''dominio'', ''punto'', ''com'']"
    by (subst rawTokens_of_ascii) (simp_all add: tokenize_defs)
  have loop: "rewriteLoop
      (map js [''guion'', ''bajo'', ''test'', ''arroba'', ''dominio'', ''punto'', ''com''])
      0 False [] = js ''_test@dominio.com''"
    by (simp add: rewriteLoop.simps rewrite_defs)
  have clean: "cleanup (js ''_test@dominio.com'') = js ''_test@dominio.com''"
    by (simp add: cleanup_defs)
  have val: "validateEmail (js ''_test@dominio.com'')
      = (True, 0.99, js ''_test'', js ''dominio.com'')"
    by (simp add: validate_defs)
  show "email (formatEmailText U (JSString (js ''guion bajo test arroba dominio punto com'')))
        = js ''_test@dominio.com''"
    by (simp add: ne tok loop clean val del: list.map)
qed

theorem C5_guion_bajo_bigram_witness:
  "(0 + 1 < length (map js [''guion'', ''bajo'', ''test''])
     \<and> map js [''guion'', ''bajo'', ''test''] ! 0 = js ''guion''
     \<and> map js [''guion'', ''bajo'', ''test''] ! (0 + 1) = js ''bajo'')
   \<and> rewriteLoop (map js [''guion'', ''bajo'', ''test'']) 0 False []
       = rewriteLoop (map js [''guion'', ''bajo'', ''test'']) (0 + 2) False ([] @ js ''_'')"
proof -
  have h: "0 + 1 < length (map js [''guion'', ''bajo'', ''test''])
     \<and> map js [''guion'', ''bajo'', ''test''] ! 0 = js ''guion''
     \<and> map js [''guion'', ''bajo'', ''test''] ! (0 + 1) = js ''bajo''"
    by simp
  have "0 + 1 < length (map js [''guion'', ''bajo'', ''test''])
     \<and> map js [''guion'', ''bajo'', ''test''] ! 0 = js ''guion''
     \<and> map js [''guion'', ''bajo'', ''test''] ! (0 + 1) = js ''bajo'' \<longrightarrow>
      rewriteLoop (map js [''guion'', ''bajo'', ''test'']) 0 False []
       = rewriteLoop (map js [''guion'', ''bajo'', ''test'']) (0 + 2) False ([] @ js ''_'')"
    using C5_guion_bajo_bigram
      [where i = 0 and toks = "map js [''guion'', ''bajo'', ''test'']" and seenAt = False
         and out = "[]"]
    by blast
  then show ?thesis
    using h by blast
qed

section \<open>The validator's domain flag\<close>

text \<open>
  \<open>validateEmail\<close> is called in one place only, by \<open>formatEmailText\<close> on the string the
  clean-up pass has produced. In such a string the part after the \<^verbatim>\<open>@\<close> has had its
  leading and trailing dots stripped and its runs of dots collapsed.
\<close>

lemma stripDots_hd:
  assumes "stripDots y \<noteq> []"
  shows "hd (stripDots y) \<noteq> 46"
proof -
  let ?z = "dropWhile (\<lambda>x. x = 46) y"
  have "rev (dropWhile (\<lambda>x. x = 46) (rev ?z)) @ rev (takeWhile (\<lambda>x. x = 46) (rev ?z))
      = rev (takeWhile (\<lambda>x. x = 46) (rev ?z) @ dropWhile (\<lambda>x. x = 46) (rev ?z))"
    by (simp only: rev_append)
  also have "\<dots> = ?z"
    by (simp only: takeWhile_dropWhile_id rev_rev_ident)
  finally have z: "?z = stripDots y @ rev (takeWhile (\<lambda>x. x = 46) (rev ?z))"
    unfolding stripDots_def by (rule sym)
  have "?z \<noteq> []"
    using assms z by (metis append_is_Nil_conv)
  then have "hd ?z \<noteq> 46"
    using hd_dropWhile [of "\<lambda>x. x = 46" y] by blast
  moreover have "hd ?z = hd (stripDots y)"
    using assms z by (metis hd_append2)
  ultimately show ?thesis by simp
qed

lemma cleanup_domain_hd:
  assumes "64 \<in> set (cleanup x)" "tl (dropWhile (\<lambda>c. c \<noteq> 64) (cleanup x)) \<noteq> []"
  shows "hd (tl (dropWhile (\<lambda>c. c \<noteq> 64) (cleanup x))) \<noteq> 46"
proof -
  let ?out = "replaceAtDot (replaceDotAt (collapseDots x))"
  let ?l = "stripDots (fst (split_at2 ?out))"
  let ?y = "stripDots (snd (split_at2 ?out))"
  have o: "64 \<in> set ?out"
  proof (rule ccontr)
    assume "64 \<notin> set ?out"
    then have "64 \<notin> set (cleanup x)"
      using set_stripDots by (auto simp: cleanup_def Let_def)
    then show False
      using assms(1) by simp
  qed
  have l: "64 \<notin> set ?l"
    using set_stripDots split_at2_no_at(1) by blast
  have c: "cleanup x = ?l @ 64 # collapseDots ?y"
    using o by (simp add: cleanup_def Let_def js_def case_prod_beta)
  have "dropWhile (\<lambda>c. c \<noteq> 64) (?l @ 64 # collapseDots ?y) = 64 # collapseDots ?y"
    using l by (rule dropWhile_upto_at)
  then have d: "tl (dropWhile (\<lambda>c. c \<noteq> 64) (cleanup x)) = collapseDots ?y"
    unfolding c by simp
  have ne: "?y \<noteq> []"
    using assms(2) unfolding d by (simp add: collapseDots_Nil)
  show ?thesis
    unfolding d using hd_collapseDots [OF ne] stripDots_hd [OF ne] by simp
qed

text \<open>
  C6. For every candidate that contains \<^verbatim>\<open>@\<close> and is given to the validator (every
  output of the clean-up pass), the domain the validator tests is the text after the first
  \<^verbatim>\<open>@\<close>, and \<open>domainOk\<close> is true of it if and only if that text consists of one or more
  groups of characters of \<^verbatim>\<open>[a-z0-9-]\<close> separated by single dots, followed by a final dot
  and a top-level label of two or more letters (case-insensitively), and contains no
  \<^verbatim>\<open>..\<close>.
\<close>

theorem C6_domainOk_as_described:
  "64 \<in> set (cleanup x) \<Longrightarrow>
   snd (snd (snd (validateEmail (cleanup x)))) = tl (dropWhile (\<lambda>c. c \<noteq> 64) (cleanup x))
   \<and> fst (validateEmail (cleanup x))
       = (localOk (takeWhile (\<lambda>c. c \<noteq> 64) (cleanup x))
          \<and> domainOk (tl (dropWhile (\<lambda>c. c \<noteq> 64) (cleanup x))))
   \<and> domainOk (tl (dropWhile (\<lambda>c. c \<noteq> 64) (cleanup x)))
       = spec_domainOk (tl (dropWhile (\<lambda>c. c \<noteq> 64) (cleanup x)))"
proof -
  assume a: "64 \<in> set (cleanup x)"
  let ?d = "tl (dropWhile (\<lambda>c. c \<noteq> 64) (cleanup x))"
  have "?d \<noteq> [] \<and> hd ?d \<noteq> 46" if "domainOk ?d"
  proof -
    have ne: "?d \<noteq> []"
      using that domainRegex_Nil unfolding domainOk_def by metis
    then show ?thesis
      using cleanup_domain_hd [OF a ne] by simp
  qed
  then have "domainOk ?d = spec_domainOk ?d"
    unfolding spec_domainOk_iff by blast
  then show ?thesis
    using a by (simp add: validateEmail_at)
qed

theorem C6_domainOk_as_described_witness:
  "cleanup (js ''a.@.b..com.'') = js ''a@b.com''
   \<and> 64 \<in> set (cleanup (js ''a.@.b..com.''))
   \<and> domainOk (tl (dropWhile (\<lambda>c. c \<noteq> 64) (cleanup (js ''a.@.b..com.''))))
       = spec_domainOk (tl (dropWhile (\<lambda>c. c \<noteq> 64) (cleanup (js ''a.@.b..com.''))))
   \<and> spec_domainOk (js ''b.com'')"
proof -
  have c: "cleanup (js ''a.@.b..com.'') = js ''a@b.com''"
    by (simp add: cleanup_defs)
  have h: "64 \<in> set (cleanup (js ''a.@.b..com.''))"
    unfolding c by (simp add: js_def)
  have s: "spec_domainOk (js ''b.com'')"
    by (simp add: spec_domainOk_def isGroup_def isLabelChar_def isLetter_def js_def)
  show ?thesis
    using c h s C6_domainOk_as_described [OF h] by blast
qed

section \<open>Tokens that name an inherited property\<close>

lemma set_replaceDotAt: "set (replaceDotAt s) \<subseteq> set s"
  by (induction s rule: replaceDotAt.induct) auto

lemma set_replaceAtDot: "set (replaceAtDot s) \<subseteq> set s"
  by (induction s rule: replaceAtDot.induct) auto

lemma set_split_at2:
  "set (fst (split_at2 s)) \<subseteq> set s" "set (snd (split_at2 s)) \<subseteq> set s"
proof -
  show "set (fst (split_at2 s)) \<subseteq> set s"
    by (auto simp: split_at2_def dest: set_takeWhileD)
  have "set (snd (split_at2 s)) \<subseteq> set (dropWhile (\<lambda>x. x \<noteq> 64) s)"
    by (auto simp: split_at2_def dest!: set_takeWhileD in_set_dropD)
  then show "set (snd (split_at2 s)) \<subseteq> set s"
    using set_dropWhileD by fastforce
qed

lemma set_cleanup: "set (cleanup x) \<subseteq> insert 64 (set x)"
proof -
  let ?out = "replaceAtDot (replaceDotAt (collapseDots x))"
  have o: "set ?out \<subseteq> set x"
    using set_replaceAtDot set_replaceDotAt set_collapseDots by blast
  have l: "set (stripDots (fst (split_at2 ?out))) \<subseteq> set x"
    using set_stripDots set_split_at2(1) o by blast
  have d: "set (collapseDots (stripDots (snd (split_at2 ?out)))) \<subseteq> set x"
    using set_collapseDots set_stripDots set_split_at2(2) o by blast
  have s: "set (stripDots ?out) \<subseteq> set x"
    using set_stripDots o by blast
  show ?thesis
    using l d s by (auto simp: cleanup_def Let_def js_def case_prod_beta)
qed

text \<open>
  Where no token is the name of a property of \<^verbatim>\<open>Object.prototype\<close>, the whole pipeline
  only emits characters of \<^verbatim>\<open>[a-z0-9._+-]\<close> and \<^verbatim>\<open>@\<close>.
\<close>

lemma email_chars_without_inherited_names:
  assumes "inp \<noteq> []" "list_all (\<lambda>t. map_of Object_prototype t = None) (rawTokens_of U inp)"
  shows "list_all (\<lambda>c. isEmailChar c \<or> c = 64) (email (formatEmailText U (JSString inp)))"
proof -
  have "list_all (\<lambda>c. isEmailChar c \<or> c = 64) (rewriteLoop (rawTokens_of U inp) 0 False [])"
    using assms(2) by (rule rewriteLoop_chars) simp
  then have "list_all (\<lambda>c. isEmailChar c \<or> c = 64)
               (cleanup (rewriteLoop (rawTokens_of U inp) 0 False []))"
    using set_cleanup [of "rewriteLoop (rawTokens_of U inp) 0 False []"]
    by (auto simp: list_all_iff)
  then show ?thesis
    by (simp add: formatEmailText_string [OF assms(1)] Let_def del: formatEmailText.simps)
qed

text \<open>
  C9 says that for every non-empty string input every character of the email is one of
  \<^verbatim>\<open>a-z\<close>, \<^verbatim>\<open>0-9\<close>, \<^verbatim>\<open>.\<close>, \<^verbatim>\<open>_\<close>, \<^verbatim>\<open>+\<close>, \<^verbatim>\<open>-\<close> and \<^verbatim>\<open>@\<close>. The code breaks this for a
  token that names a property every object inherits. The read \<^verbatim>\<open>MAP_SINGLE["__proto__"]\<close>
  yields \<^verbatim>\<open>Object.prototype\<close>, which is truthy and is not \<^verbatim>\<open>"@"\<close>, so \<^verbatim>\<open>out += sym\<close>
  appends \<^verbatim>\<open>"[object Object]"\<close>: the email of the input \<^verbatim>\<open>"__proto__"\<close> holds brackets, a
  space and an upper-case letter.
\<close>

theorem C9_inherited_property_in_email:
  "email (formatEmailText U (JSString (js ''__proto__''))) = js ''[object Object]''
   \<and> \<not> list_all (\<lambda>c. isEmailChar c \<or> c = 64)
          (email (formatEmailText U (JSString (js ''__proto__''))))"
proof -
  have ne: "js ''__proto__'' \<noteq> []"
    by (simp add: js_def)
  have tok: "rawTokens_of U (js ''__proto__'') = [js ''__proto__'']"
    by (subst rawTokens_of_ascii) (simp_all add: tokenize_defs)
  have loop: "rewriteLoop [js ''__proto__''] 0 False [] = js ''[object Object]''"
    by (simp add: rewriteLoop.simps rewrite_defs)
  have clean: "cleanup (js ''[object Object]'') = js ''[object Object]''"
    by (simp add: cleanup_defs)
  have val: "validateEmail (js ''[object Object]'') = (False, 0.4, [], [])"
    by (simp add: validate_defs)
  have e: "email (formatEmailText U (JSString (js ''__proto__''))) = js ''[object Object]''"
    by (simp add: ne tok loop clean val)
  have "\<not> list_all (\<lambda>c. isEmailChar c \<or> c = 64) (js ''[object Object]'')"
    by (simp add: js_def isEmailChar_def)
  then show ?thesis
    using e by simp
qed

end
